theory Spec2Isabelle
  imports Main
begin

section \<open>Data model\<close>

text \<open>
  A class object: its \<open>__module__\<close>, its \<open>__name__\<close> and its proper ancestors
  (the method resolution order without the class itself and without \<open>object\<close>).
\<close>

datatype cls = Cls (cmodule: string) (cname: string) (cbases: "cls list")

definition object_cls :: cls where "object_cls = Cls ''builtins'' ''object'' []"
definition type_cls :: cls where "type_cls = Cls ''builtins'' ''type'' []"
definition int_cls :: cls where "int_cls = Cls ''builtins'' ''int'' []"
definition bool_cls :: cls where "bool_cls = Cls ''builtins'' ''bool'' [int_cls]"
definition str_cls :: cls where "str_cls = Cls ''builtins'' ''str'' []"
definition bytes_cls :: cls where "bytes_cls = Cls ''builtins'' ''bytes'' []"
definition float_cls :: cls where "float_cls = Cls ''builtins'' ''float'' []"
definition NoneType_cls :: cls where "NoneType_cls = Cls ''builtins'' ''NoneType'' []"
definition list_cls :: cls where "list_cls = Cls ''builtins'' ''list'' []"
definition tuple_cls :: cls where "tuple_cls = Cls ''builtins'' ''tuple'' []"
definition set_cls :: cls where "set_cls = Cls ''builtins'' ''set'' []"
definition frozenset_cls :: cls where "frozenset_cls = Cls ''builtins'' ''frozenset'' []"
definition dict_cls :: cls where "dict_cls = Cls ''builtins'' ''dict'' []"
definition function_cls :: cls where "function_cls = Cls ''builtins'' ''function'' []"
definition NotSetType :: cls where "NotSetType = Cls ''gceutils.base'' ''NotSetType'' []"
definition Any_cls :: cls where "Any_cls = Cls ''typing'' ''Any'' []"
definition abc_Callable :: cls where "abc_Callable = Cls ''collections.abc'' ''Callable'' []"
definition abc_Mapping :: cls where "abc_Mapping = Cls ''collections.abc'' ''Mapping'' []"
definition abc_Sequence :: cls where "abc_Sequence = Cls ''collections.abc'' ''Sequence'' []"
definition abc_Iterable :: cls where "abc_Iterable = Cls ''collections.abc'' ''Iterable'' []"

lemmas cls_defs =
  object_cls_def type_cls_def int_cls_def bool_cls_def str_cls_def bytes_cls_def
  float_cls_def NoneType_cls_def list_cls_def tuple_cls_def set_cls_def frozenset_cls_def
  dict_cls_def function_cls_def NotSetType_def Any_cls_def abc_Callable_def abc_Mapping_def
  abc_Sequence_def abc_Iterable_def

text \<open>
  Runtime values. A set or frozenset is the list of its elements in iteration order, a
  dict the list of its items in insertion order. \<open>VObj c attrs\<close> is an instance of the
  user class \<open>c\<close>; \<open>attrs\<close> holds the attributes that \<open>getattr\<close> finds on it.
  \<open>VNotSet\<close> is the singleton \<open>NotSet\<close> of base.py. Values are finite trees: an object
  graph with a cycle, on which the recursive traversals of the source do not return, is
  not a value of this type.
\<close>

datatype pyval =
    VNone
  | VBool bool
  | VInt int
  | VStr string
  | VBytes "nat list"
  | VList "pyval list"
  | VTuple "pyval list"
  | VSet "pyval list"
  | VFrozenset "pyval list"
  | VDict "(pyval \<times> pyval) list"
  | VClass cls
  | VFunc string
  | VNotSet
  | VObj cls "(string \<times> pyval) list"

subsection \<open>Paths (base.py)\<close>

datatype seg = ATPathAttribute string | ATPathIndexOrKey pyval

text \<open>
  \<open>AbstractTreePath\<close> is a frozen dataclass with the two fields \<open>path\<close> and
  \<open>start_with_dot\<close>. \<open>__init__\<close> rejects a \<open>path\<close> that is not an iterable of segments;
  here the type of the field excludes such an argument.
\<close>

datatype AbstractTreePath = AbstractTreePath (path: "seg list") (start_with_dot: bool)

text \<open>\<open>AbstractTreePath()\<close>: the empty tuple and \<open>start_with_dot=True\<close>.\<close>

definition empty_path :: AbstractTreePath where
  "empty_path = AbstractTreePath [] True"

definition add_attribute :: "AbstractTreePath \<Rightarrow> string \<Rightarrow> AbstractTreePath" where
  "add_attribute self attr =
     AbstractTreePath (path self @ [ATPathAttribute attr]) (start_with_dot self)"

definition add_index_or_key :: "AbstractTreePath \<Rightarrow> pyval \<Rightarrow> AbstractTreePath" where
  "add_index_or_key self index_or_key =
     AbstractTreePath (path self @ [ATPathIndexOrKey index_or_key]) (start_with_dot self)"

definition extend :: "AbstractTreePath \<Rightarrow> AbstractTreePath \<Rightarrow> AbstractTreePath" where
  "extend self other = AbstractTreePath (path self @ path other) (start_with_dot self)"

text \<open>
  \<open>t[:stop]\<close> on a tuple: a negative \<open>stop\<close> counts from the end, and the bound is
  clamped to \<open>0 .. len(t)\<close>.
\<close>

definition slice_stop :: "'a list \<Rightarrow> int \<Rightarrow> 'a list" where
  "slice_stop t stop =
     (let n = int (length t);
          s = (if stop < 0 then max (stop + n) 0 else min stop n)
      in take (nat s) t)"

text \<open>\<open>__getitem__\<close> with the slice \<open>[:stop]\<close>.\<close>

definition getitem_slice_stop :: "AbstractTreePath \<Rightarrow> int \<Rightarrow> AbstractTreePath" where
  "getitem_slice_stop self stop =
     AbstractTreePath (slice_stop (path self) stop) (start_with_dot self)"

text \<open>\<open>go_up\<close> returns \<open>self[:-n]\<close>; \<open>n\<close> is an \<open>int\<close>, so the ValueError is not raised.\<close>

definition go_up :: "AbstractTreePath \<Rightarrow> int \<Rightarrow> AbstractTreePath" where
  "go_up self n = getitem_slice_stop self (- n)"



section \<open>The structural type checker (decorators.py)\<close>

subsection \<open>Type descriptors, messages and errors\<close>

text \<open>
  The expected type, as \<open>get_origin\<close> and \<open>get_args\<close> see it. \<open>TGeneric origin args\<close> is
  a parametrised generic (or an unsubscripted alias of \<open>typing\<close>, with no arguments),
  \<open>TTypeVar bound\<close> a type variable with its \<open>__bound__\<close>, \<open>TClass c\<close> a plain class,
  \<open>TClassTuple\<close> a tuple of classes (not a type, yet accepted by \<open>isinstance\<close>),
  \<open>TEllipsis\<close> the \<open>...\<close> of \<open>tuple[T, ...]\<close>, and \<open>TOther\<close> any other object of
  \<open>typing\<close> on which \<open>isinstance\<close> raises TypeError (a \<open>NewType\<close>, for example).
  \<open>typing\<close> flattens nested unions, so the arms of a union are not unions themselves;
  the type allows them all the same.
\<close>

datatype origin = O_type | O_dict | O_tuple | O_list | O_set | O_frozenset
  | O_Callable | O_Mapping | O_Sequence | O_Iterable | O_class cls

datatype ty =
    TAny
  | TTypeVar "ty option"
  | TUnion "ty list"
  | TGeneric origin "ty list"
  | TLiteral "pyval list"
  | TClass cls
  | TClassTuple "cls list"
  | TEllipsis
  | TOther string

text \<open>
  What \<open>_repr_type\<close> returns: the name it builds for a class, or Python's \<open>str\<close> of an
  object of \<open>typing\<close>, which is kept as the object.
\<close>

datatype repr = ReprName string | ReprStr ty

text \<open>
  The messages: one constructor for each f-string of \<open>enforce_type\<close>, holding the values
  the f-string interpolates. Their text is \<open>msg_text\<close> below.
\<close>

datatype msg =
    MustBeOneOfTypes repr repr
  | MustBeAClass repr
  | MustBeASubclassOf "ty list" cls
  | MustBeADict repr
  | MustBeATuple repr
  | MustBeATupleOfLength nat nat
  | MustBeA string repr
  | MustBeCallable repr
  | MustBeAMapping repr
  | MustBeASequence repr
  | MustBeAnIterable repr
  | MustBeOneOfLiteral "pyval list" pyval
  | MustBeOfType repr repr

text \<open>
  What can be raised: the library's \<open>GU_TypeValidationError(path, msg, condition)\<close>, the
  builtin TypeError and AttributeError, and whatever a user's hook raises.
\<close>

datatype error =
    GU_TypeValidationError AbstractTreePath msg "string option"
  | TypeError
  | AttributeError string
  | OtherError string

type_synonym result = "error + unit"

subsection \<open>Builtins\<close>

text \<open>
  \<open>type(value)\<close>, \<open>issubclass\<close>, \<open>isinstance\<close>, \<open>callable\<close> and iteration, on the
  values of the model. \<open>abc_registered\<close> lists the builtin classes that the abstract
  classes \<open>Callable\<close>, \<open>Mapping\<close>, \<open>Sequence\<close> and \<open>Iterable\<close> of \<open>collections.abc\<close>
  accept as subclasses; for a value, membership in these four is decided by its shape.
  A user class is taken not to derive from a builtin container and to implement none of
  the four, and its instances not to be callable. \<open>py_eq\<close> is \<open>==\<close>: a bool equals the
  int of the same value, everything else is compared structurally.
\<close>

fun type_of :: "pyval \<Rightarrow> cls" where
  "type_of VNone = NoneType_cls"
| "type_of (VBool _) = bool_cls"
| "type_of (VInt _) = int_cls"
| "type_of (VStr _) = str_cls"
| "type_of (VBytes _) = bytes_cls"
| "type_of (VList _) = list_cls"
| "type_of (VTuple _) = tuple_cls"
| "type_of (VSet _) = set_cls"
| "type_of (VFrozenset _) = frozenset_cls"
| "type_of (VDict _) = dict_cls"
| "type_of (VClass _) = type_cls"
| "type_of (VFunc _) = function_cls"
| "type_of VNotSet = NotSetType"
| "type_of (VObj c _) = c"

definition abc_registered :: "cls \<Rightarrow> cls list" where
  "abc_registered d =
     (if d = abc_Callable then [type_cls, function_cls]
      else if d = abc_Mapping then [dict_cls]
      else if d = abc_Sequence then [list_cls, tuple_cls, str_cls, bytes_cls]
      else if d = abc_Iterable then
        [list_cls, tuple_cls, set_cls, frozenset_cls, dict_cls, str_cls, bytes_cls]
      else [])"

definition issubclass :: "cls \<Rightarrow> cls \<Rightarrow> bool" where
  "issubclass c d =
     (c = d \<or> d \<in> set (cbases c) \<or> d = object_cls \<or> c \<in> set (abc_registered d))"

fun callable :: "pyval \<Rightarrow> bool" where
  "callable (VFunc _) = True"
| "callable (VClass _) = True"
| "callable _ = False"

fun is_Mapping :: "pyval \<Rightarrow> bool" where
  "is_Mapping (VDict _) = True"
| "is_Mapping _ = False"

fun is_Sequence :: "pyval \<Rightarrow> bool" where
  "is_Sequence (VList _) = True"
| "is_Sequence (VTuple _) = True"
| "is_Sequence (VStr _) = True"
| "is_Sequence (VBytes _) = True"
| "is_Sequence _ = False"

fun is_Iterable :: "pyval \<Rightarrow> bool" where
  "is_Iterable (VList _) = True"
| "is_Iterable (VTuple _) = True"
| "is_Iterable (VSet _) = True"
| "is_Iterable (VFrozenset _) = True"
| "is_Iterable (VDict _) = True"
| "is_Iterable (VStr _) = True"
| "is_Iterable (VBytes _) = True"
| "is_Iterable _ = False"

definition isinstance :: "pyval \<Rightarrow> cls \<Rightarrow> bool" where
  "isinstance v c =
     (if c = abc_Callable then callable v
      else if c = abc_Mapping then is_Mapping v
      else if c = abc_Sequence then is_Sequence v
      else if c = abc_Iterable then is_Iterable v
      else issubclass (type_of v) c)"

fun iter_items :: "pyval \<Rightarrow> pyval list" where
  "iter_items (VList xs) = xs"
| "iter_items (VTuple xs) = xs"
| "iter_items (VSet xs) = xs"
| "iter_items (VFrozenset xs) = xs"
| "iter_items (VDict kvs) = map fst kvs"
| "iter_items (VStr s) = map (\<lambda>ch. VStr [ch]) s"
| "iter_items (VBytes bs) = map (\<lambda>b. VInt (int b)) bs"
| "iter_items _ = []"

fun num_of :: "pyval \<Rightarrow> int option" where
  "num_of (VInt n) = Some n"
| "num_of (VBool b) = Some (if b then 1 else 0)"
| "num_of _ = None"

definition py_eq :: "pyval \<Rightarrow> pyval \<Rightarrow> bool" where
  "py_eq v a = (case (num_of v, num_of a) of (Some m, Some n) \<Rightarrow> m = n | _ \<Rightarrow> v = a)"

definition startswith :: "string \<Rightarrow> string \<Rightarrow> bool" where
  "startswith s pre = (take (length pre) s = pre)"

fun repr_type :: "ty \<Rightarrow> bool \<Rightarrow> repr" where
  "repr_type (TClass t) notset_as_special =
     (if notset_as_special \<and> t = NotSetType then ReprName ''<not set>''
      else if cmodule t = ''builtins'' then ReprName (cname t)
      else if startswith (cmodule t) ''pmp_manip.utility.'' then ReprName (''pmp_manip.utility.'' @ cname t)
      else if startswith (cmodule t) ''pmp_manip.'' then ReprName (''pmp_manip.'' @ cname t)
      else if cmodule t = ''gceutils'' then ReprName (''gceutils.'' @ cname t)
      else ReprName (cmodule t @ ''.'' @ cname t))"
| "repr_type t notset_as_special = ReprStr t"

text \<open>
  \<open>issubclass(c, targets)\<close> with a tuple: the targets are tried in order, a target
  that is not a class raises TypeError (\<open>None\<close>) unless an earlier one has matched.
  \<open>typing.Any\<close> is a class.
\<close>

fun issubclass_tuple :: "cls \<Rightarrow> ty list \<Rightarrow> bool option" where
  "issubclass_tuple c [] = Some False"
| "issubclass_tuple c (TClass d # ts) = (if issubclass c d then Some True else issubclass_tuple c ts)"
| "issubclass_tuple c (TAny # ts) = (if issubclass c Any_cls then Some True else issubclass_tuple c ts)"
| "issubclass_tuple c (_ # ts) = None"

subsection \<open>Loops\<close>

text \<open>
  \<open>for x in xs: body(x)\<close>, left by the first exception; and the loop over the arms of
  a union, where \<open>except GU_TypeValidationError: continue\<close> catches that exception only.
\<close>

fun for_each :: "('a \<Rightarrow> result) \<Rightarrow> 'a list \<Rightarrow> result" where
  "for_each body [] = Inr ()"
| "for_each body (x # xs) = (case body x of Inl e \<Rightarrow> Inl e | Inr _ \<Rightarrow> for_each body xs)"

lemma for_each_cong [fundef_cong]:
  "xs = ys \<Longrightarrow> (\<And>x. x \<in> set ys \<Longrightarrow> f x = g x) \<Longrightarrow> for_each f xs = for_each g ys"
  by (induction ys arbitrary: xs) (auto split: sum.splits)

fun try_arms :: "(ty \<Rightarrow> result) \<Rightarrow> ty list \<Rightarrow> error \<Rightarrow> result" where
  "try_arms check [] all_failed = Inl all_failed"
| "try_arms check (arm # arms) all_failed =
     (case check arm of
        Inr _ \<Rightarrow> Inr ()
      | Inl (GU_TypeValidationError _ _ _) \<Rightarrow> try_arms check arms all_failed
      | Inl e \<Rightarrow> Inl e)"

lemma try_arms_cong [fundef_cong]:
  "arms = arms' \<Longrightarrow> (\<And>a. a \<in> set arms' \<Longrightarrow> f a = g a) \<Longrightarrow> e = e' \<Longrightarrow>
   try_arms f arms e = try_arms g arms' e'"
  by (induction arms' arbitrary: arms) (auto split: sum.splits error.splits)

text \<open>
  \<open>args[0] if args else Any\<close> and \<open>args[1] if len(args) >= 2 else Any\<close>.
\<close>

definition arg0 :: "ty list \<Rightarrow> ty" where
  "arg0 args = (case args of [] \<Rightarrow> TAny | t # _ \<Rightarrow> t)"

definition arg1 :: "ty list \<Rightarrow> ty" where
  "arg1 args = (case args of _ # t # _ \<Rightarrow> t | _ \<Rightarrow> TAny)"

lemma size_arg0 [termination_simp]: "size (arg0 args) < Suc (size_list size args)"
  by (cases args) (auto simp: arg0_def)

lemma size_arg1 [termination_simp]: "size (arg1 args) < Suc (size_list size args)"
  by (auto simp: arg1_def split: list.splits)

text \<open>\<open>path.add_index_or_key(i)\<close> for the index of an enumeration.\<close>

definition index_path :: "AbstractTreePath \<Rightarrow> nat \<Rightarrow> AbstractTreePath" where
  "index_path p i = add_index_or_key p (VInt (int i))"

lemma in_enumerate_zip_size [termination_simp]:
  assumes "(i, item, elem_t) \<in> set (enumerate n (zip items args))"
  shows "size elem_t < Suc (size_list size args)"
proof -
  have "i - n < length (zip items args)" and "zip items args ! (i - n) = (item, elem_t)"
    using assms by (auto simp: in_set_enumerate_eq simp del: length_zip)
  then have "(item, elem_t) \<in> set (zip items args)"
    using nth_mem [of "i - n" "zip items args"] by simp
  then have "elem_t \<in> set args" by (rule set_zip_rightD)
  then have "size elem_t \<le> size_list size args" by (simp add: size_list_estimation')
  then show ?thesis by simp
qed

subsection \<open>enforce\_type\<close>

text \<open>
  One equation for each branch of the source, in its order. The recursive call of the
  TypeVar branch does not pass \<open>notset_as_special\<close> on, so the default \<open>True\<close> applies.
\<close>

fun enforce_type :: "pyval \<Rightarrow> ty \<Rightarrow> AbstractTreePath \<Rightarrow> string option \<Rightarrow> bool \<Rightarrow> result" where
  "enforce_type value TAny p condition notset_as_special = Inr ()"
| "enforce_type value (TTypeVar bound) p condition notset_as_special =
     (case bound of
        Some b \<Rightarrow> enforce_type value b p condition True
      | None \<Rightarrow> Inr ())"
| "enforce_type value (TUnion arms) p condition notset_as_special =
     try_arms (\<lambda>arm. enforce_type value arm p condition notset_as_special) arms
       (GU_TypeValidationError p
          (MustBeOneOfTypes (repr_type (TUnion arms) notset_as_special)
             (repr_type (TClass (type_of value)) notset_as_special))
          condition)"
| "enforce_type value (TGeneric O_type args) p condition notset_as_special =
     (case value of
        VClass c \<Rightarrow>
          (let target = (case args of [] \<Rightarrow> TClass object_cls | t # _ \<Rightarrow> t);
               target = (case target of
                           TTypeVar None \<Rightarrow> TClass object_cls
                         | TTypeVar (Some b) \<Rightarrow> b
                         | _ \<Rightarrow> target);
               targets = (case target of TUnion arms \<Rightarrow> arms | _ \<Rightarrow> [target])
           in if target = TClass object_cls then Inr ()
              else (case issubclass_tuple c targets of
                      None \<Rightarrow> Inl TypeError
                    | Some True \<Rightarrow> Inr ()
                    | Some False \<Rightarrow>
                        Inl (GU_TypeValidationError p (MustBeASubclassOf targets c) condition)))
      | _ \<Rightarrow>
          Inl (GU_TypeValidationError p
                 (MustBeAClass (repr_type (TClass (type_of value)) notset_as_special)) condition))"
| "enforce_type value (TGeneric O_dict args) p condition notset_as_special =
     (case value of
        VDict items \<Rightarrow>
          for_each (\<lambda>(i, k, v).
              case enforce_type k (arg0 args)
                     (index_path (add_attribute p ''keys()'') i) condition notset_as_special of
                Inl e \<Rightarrow> Inl e
              | Inr _ \<Rightarrow>
                  enforce_type v (arg1 args) (add_index_or_key p k) condition notset_as_special)
            (enumerate 0 items)
      | _ \<Rightarrow>
          Inl (GU_TypeValidationError p
                 (MustBeADict (repr_type (TClass (type_of value)) notset_as_special)) condition))"
| "enforce_type value (TGeneric O_tuple args) p condition notset_as_special =
     (case value of
        VTuple items \<Rightarrow>
          (if length args = 2 \<and> args ! 1 = TEllipsis then
             for_each (\<lambda>(i, item).
                 enforce_type item (arg0 args) (index_path p i) condition notset_as_special)
               (enumerate 0 items)
           else if args \<noteq> [] then
             (if length items \<noteq> length args then
                Inl (GU_TypeValidationError p
                       (MustBeATupleOfLength (length args) (length items)) condition)
              else
                for_each (\<lambda>(i, item, elem_t).
                    enforce_type item elem_t (index_path p i) condition notset_as_special)
                  (enumerate 0 (zip items args)))
           else Inr ())
      | _ \<Rightarrow>
          Inl (GU_TypeValidationError p
                 (MustBeATuple (repr_type (TClass (type_of value)) notset_as_special)) condition))"
| "enforce_type value (TGeneric O_list args) p condition notset_as_special =
     (case value of
        VList items \<Rightarrow>
          for_each (\<lambda>(i, item).
              enforce_type item (arg0 args) (index_path p i) condition notset_as_special)
            (enumerate 0 items)
      | _ \<Rightarrow>
          Inl (GU_TypeValidationError p
                 (MustBeA ''list'' (repr_type (TClass (type_of value)) notset_as_special)) condition))"
| "enforce_type value (TGeneric O_set args) p condition notset_as_special =
     (case value of
        VSet items \<Rightarrow>
          for_each (\<lambda>(i, item).
              enforce_type item (arg0 args) (index_path p i) condition notset_as_special)
            (enumerate 0 items)
      | _ \<Rightarrow>
          Inl (GU_TypeValidationError p
                 (MustBeA ''set'' (repr_type (TClass (type_of value)) notset_as_special)) condition))"
| "enforce_type value (TGeneric O_frozenset args) p condition notset_as_special =
     (case value of
        VFrozenset items \<Rightarrow>
          for_each (\<lambda>(i, item).
              enforce_type item (arg0 args) (index_path p i) condition notset_as_special)
            (enumerate 0 items)
      | _ \<Rightarrow>
          Inl (GU_TypeValidationError p
                 (MustBeA ''frozenset'' (repr_type (TClass (type_of value)) notset_as_special)) condition))"
| "enforce_type value (TGeneric O_Callable args) p condition notset_as_special =
     (if \<not> callable value then
        Inl (GU_TypeValidationError p
               (MustBeCallable (repr_type (TClass (type_of value)) notset_as_special)) condition)
      else Inr ())"
| "enforce_type value (TGeneric O_Mapping args) p condition notset_as_special =
     (case value of
        VDict items \<Rightarrow>
          for_each (\<lambda>(i, k, v).
              case enforce_type k (arg0 args)
                     (index_path (add_attribute p ''keys()'') i) condition notset_as_special of
                Inl e \<Rightarrow> Inl e
              | Inr _ \<Rightarrow>
                  enforce_type v (arg1 args) (add_index_or_key p k) condition notset_as_special)
            (enumerate 0 items)
      | _ \<Rightarrow>
          Inl (GU_TypeValidationError p
                 (MustBeAMapping (repr_type (TClass (type_of value)) notset_as_special)) condition))"
| "enforce_type value (TGeneric O_Sequence args) p condition notset_as_special =
     (if \<not> is_Sequence value then
        Inl (GU_TypeValidationError p
               (MustBeASequence (repr_type (TClass (type_of value)) notset_as_special)) condition)
      else
        for_each (\<lambda>(i, item).
            enforce_type item (arg0 args) (index_path p i) condition notset_as_special)
          (enumerate 0 (iter_items value)))"
| "enforce_type value (TGeneric O_Iterable args) p condition notset_as_special =
     (if \<not> is_Iterable value then
        Inl (GU_TypeValidationError p
               (MustBeAnIterable (repr_type (TClass (type_of value)) notset_as_special)) condition)
      else if isinstance value str_cls \<or> isinstance value bytes_cls then Inr ()
      else
        for_each (\<lambda>(i, item).
            enforce_type item (arg0 args) (index_path p i) condition notset_as_special)
          (enumerate 0 (iter_items value)))"
| "enforce_type value (TLiteral args) p condition notset_as_special =
     (if \<not> list_ex (py_eq value) args then
        Inl (GU_TypeValidationError p (MustBeOneOfLiteral args value) condition)
      else Inr ())"
| "enforce_type value (TClass expected) p condition notset_as_special =
     (if expected = abc_Callable then
        (if \<not> callable value then
           Inl (GU_TypeValidationError p
                  (MustBeCallable (repr_type (TClass (type_of value)) notset_as_special)) condition)
         else Inr ())
      else if \<not> isinstance value expected then
        Inl (GU_TypeValidationError p
               (MustBeOfType (repr_type (TClass expected) notset_as_special)
                  (repr_type (TClass (type_of value)) notset_as_special)) condition)
      else Inr ())"
| "enforce_type value (TClassTuple classes) p condition notset_as_special =
     (if \<not> list_ex (isinstance value) classes then
        Inl (GU_TypeValidationError p
               (MustBeOfType (ReprStr (TClassTuple classes))
                  (repr_type (TClass (type_of value)) notset_as_special)) condition)
      else Inr ())"
| "enforce_type value TEllipsis p condition notset_as_special =
     Inl (GU_TypeValidationError p
            (MustBeOfType (ReprStr TEllipsis)
               (repr_type (TClass (type_of value)) notset_as_special)) condition)"
| "enforce_type value (TOther name) p condition notset_as_special =
     Inl (GU_TypeValidationError p
            (MustBeOfType (ReprStr (TOther name))
               (repr_type (TClass (type_of value)) notset_as_special)) condition)"
| "enforce_type value (TGeneric (O_class origin) args) p condition notset_as_special =
     (if \<not> isinstance value origin then
        Inl (GU_TypeValidationError p
               (MustBeOfType (ReprName (cname origin))
                  (repr_type (TClass (type_of value)) notset_as_special)) condition)
      else Inr ())"

subsection \<open>The text of a message\<close>







section \<open>Record validation (base.py)\<close>

text \<open>
  A dataclass field with the options that \<open>validate_method\<close> reads from \<open>FIELD_OPTIONS\<close>;
  \<open>field_type\<close> is the resolved type hint.
\<close>

datatype Field = Field
  (field_name: string)
  (field_type: ty)
  (validate_type: bool)
  (validate_require_exist: bool)
  (call_subvalidate: bool)

text \<open>
  \<open>getattr(obj, name)\<close>: only an instance of a user class carries attributes here;
  \<open>None\<close> is the AttributeError.
\<close>

fun getattr_opt :: "pyval \<Rightarrow> string \<Rightarrow> pyval option" where
  "getattr_opt (VObj c attrs) name = map_of attrs name"
| "getattr_opt _ name = None"

text \<open>
  A method that user code may have put on an object (\<open>validate\<close>, \<open>post_validate\<close>,
  \<open>_visit_node_unfiltered_\<close>) is a parameter: a function from the object to the bound
  method, if there is a callable one. The builtin values have none of these attributes.
\<close>

fun method_of :: "(pyval \<Rightarrow> 'm option) \<Rightarrow> pyval \<Rightarrow> 'm option" where
  "method_of methods (VObj c attrs) = methods (VObj c attrs)"
| "method_of methods (VClass c) = methods (VClass c)"
| "method_of methods _ = None"

text \<open>The body of the first loop of \<open>validate_method\<close>: the type check of one field.\<close>

definition check_field_type :: "pyval \<Rightarrow> AbstractTreePath \<Rightarrow> Field \<Rightarrow> result" where
  "check_field_type self p field =
     (if \<not> validate_type field then Inr ()
      else case getattr_opt self (field_name field) of
             Some v \<Rightarrow>
               enforce_type v (field_type field) (add_attribute p (field_name field)) None False
           | None \<Rightarrow>
               if validate_require_exist field then
                 enforce_type VNotSet (field_type field) (add_attribute p (field_name field)) None True
               else Inr ())"

text \<open>The body of the second loop: \<open>field_value.validate(path.add_attribute(name))\<close>.\<close>

definition subvalidate_field ::
  "(pyval \<Rightarrow> (AbstractTreePath \<Rightarrow> result) option) \<Rightarrow> pyval \<Rightarrow> AbstractTreePath \<Rightarrow> Field \<Rightarrow> result" where
  "subvalidate_field validate_methods self p field =
     (if \<not> call_subvalidate field then Inr ()
      else
        let field_value = (case getattr_opt self (field_name field) of Some v \<Rightarrow> v | None \<Rightarrow> VNone)
        in case method_of validate_methods field_value of
             Some validate \<Rightarrow> validate (add_attribute p (field_name field))
           | None \<Rightarrow> Inr ())"

definition validate_method ::
  "(pyval \<Rightarrow> (AbstractTreePath \<Rightarrow> result) option) \<Rightarrow> (pyval \<Rightarrow> (AbstractTreePath \<Rightarrow> result) option) \<Rightarrow>
   Field list \<Rightarrow> pyval \<Rightarrow> AbstractTreePath option \<Rightarrow> result" where
  "validate_method validate_methods post_validate_methods fields self path_arg =
     (let p = (case path_arg of None \<Rightarrow> AbstractTreePath [] True | Some q \<Rightarrow> q) in
      case for_each (check_field_type self p) fields of
        Inl e \<Rightarrow> Inl e
      | Inr _ \<Rightarrow>
          (case for_each (subvalidate_field validate_methods self p) fields of
             Inl e \<Rightarrow> Inl e
           | Inr _ \<Rightarrow>
               (case method_of post_validate_methods self of
                  Some post_validate \<Rightarrow> post_validate p
                | None \<Rightarrow> Inr ())))"

section \<open>The tree visitor (tree\_tools.py)\<close>

text \<open>
  \<open>pairs.extend(...)\<close> over a loop whose body may raise: the lists are concatenated, the
  first exception ends the loop.
\<close>

fun collect :: "('a \<Rightarrow> error + 'b list) \<Rightarrow> 'a list \<Rightarrow> error + 'b list" where
  "collect body [] = Inr []"
| "collect body (x # xs) =
     (case body x of
        Inl e \<Rightarrow> Inl e
      | Inr ys \<Rightarrow> (case collect body xs of Inl e \<Rightarrow> Inl e | Inr zs \<Rightarrow> Inr (ys @ zs)))"

lemma collect_cong [fundef_cong]:
  "xs = ys \<Longrightarrow> (\<And>x. x \<in> set ys \<Longrightarrow> f x = g x) \<Longrightarrow> collect f xs = collect g ys"
  by (induction ys arbitrary: xs) (auto split: sum.splits)



lemma size_map_of [termination_simp]:
  "map_of attrs name = Some v \<Longrightarrow> size v < Suc (size_list (\<lambda>x. Suc (size (snd x))) attrs)"
  by (induction attrs) (auto split: if_splits)

lemma size_enumerate [termination_simp]:
  assumes "(i, item) \<in> set (enumerate n items)"
  shows "size item < Suc (size_list size items)"
proof -
  have "item \<in> set items"
    using assms by (auto simp: in_set_enumerate_eq)
  then have "size item \<le> size_list size items" by (simp add: size_list_estimation')
  then show ?thesis by simp
qed



section \<open>Notions used to state the properties\<close>

text \<open>
  \<open>path_extends q p\<close>: the path \<open>q\<close> is \<open>p\<close> followed by further segments, with the same
  \<open>start_with_dot\<close>. \<open>first_failure rs\<close>: the result of running checks with the results
  \<open>rs\<close> in order and stopping at the first one that raises.
\<close>

definition path_extends :: "AbstractTreePath \<Rightarrow> AbstractTreePath \<Rightarrow> bool" where
  "path_extends q p \<longleftrightarrow>
     take (length (path p)) (path q) = path p \<and> start_with_dot q = start_with_dot p"

fun first_failure :: "result list \<Rightarrow> result" where
  "first_failure [] = Inr ()"
| "first_failure (Inr _ # rs) = first_failure rs"
| "first_failure (Inl e # rs) = Inl e"

section \<open>Outcomes and loops\<close>

datatype outcome = Returns | Rejects | Crashes

fun outcome_of :: "result \<Rightarrow> outcome" where
  "outcome_of (Inr _) = Returns"
| "outcome_of (Inl (GU_TypeValidationError _ _ _)) = Rejects"
| "outcome_of (Inl _) = Crashes"

lemma outcome_of_Returns: "outcome_of r = Returns \<longleftrightarrow> r = Inr ()"
  by (cases r rule: outcome_of.cases) auto

lemma outcome_of_Rejects:
  "outcome_of r = Rejects \<longleftrightarrow> (\<exists>q m c. r = Inl (GU_TypeValidationError q m c))"
  by (cases r rule: outcome_of.cases) auto

lemma for_each_Cons_if:
  "for_each f (x # xs) = (if f x = Inr () then for_each f xs else f x)"
  by (cases "f x") auto

lemma try_arms_Cons_outcome:
  "try_arms f (a # arms) e =
     (case outcome_of (f a) of Returns \<Rightarrow> Inr () | Rejects \<Rightarrow> try_arms f arms e | Crashes \<Rightarrow> f a)"
  by (cases "f a" rule: outcome_of.cases) auto

lemma for_each_Inr: "for_each f xs = Inr () \<longleftrightarrow> (\<forall>x\<in>set xs. f x = Inr ())"
  by (induction xs) (auto split: sum.splits)

lemma for_each_first_failure:
  "\<forall>x\<in>set xs. f x = Inr () \<Longrightarrow> f y = Inl e \<Longrightarrow> for_each f (xs @ y # ys) = Inl e"
  by (induction xs) (auto split: sum.splits)

lemma for_each_Inl: "for_each f xs = Inl e \<Longrightarrow> \<exists>x\<in>set xs. f x = Inl e"
  by (induction xs) (auto split: sum.splits)

lemma outcome_for_each:
  "(\<And>x. x \<in> set xs \<Longrightarrow> outcome_of (f x) = outcome_of (g x)) \<Longrightarrow>
   outcome_of (for_each f xs) = outcome_of (for_each g xs)"
proof (induction xs)
  case Nil
  show ?case by simp
next
  case (Cons x xs)
  have hd: "outcome_of (f x) = outcome_of (g x)" using Cons.prems by simp
  have tl: "outcome_of (for_each f xs) = outcome_of (for_each g xs)"
    using Cons.IH Cons.prems by simp
  have "f x = Inr () \<longleftrightarrow> g x = Inr ()"
    using hd by (metis outcome_of_Returns)
  then show ?case
    using hd tl by (simp only: for_each_Cons_if split: if_splits) simp
qed

lemma outcome_try_arms:
  "(\<And>a. a \<in> set arms \<Longrightarrow> outcome_of (f a) = outcome_of (g a)) \<Longrightarrow>
   outcome_of (try_arms f arms (GU_TypeValidationError q m c))
     = outcome_of (try_arms g arms (GU_TypeValidationError q' m' c'))"
proof (induction arms)
  case Nil
  show ?case by simp
next
  case (Cons a arms)
  have hd: "outcome_of (f a) = outcome_of (g a)" using Cons.prems by simp
  have tl: "outcome_of (try_arms f arms (GU_TypeValidationError q m c))
     = outcome_of (try_arms g arms (GU_TypeValidationError q' m' c'))"
    using Cons.IH Cons.prems by simp
  show ?case
    using hd tl by (cases "outcome_of (g a)") (simp_all only: try_arms_Cons_outcome outcome.case outcome_of.simps)
qed

section \<open>The outcome of a check does not depend on where it is reported\<close>

lemma outcome_index_loop:
  assumes "\<And>i item. (i, item) \<in> set (enumerate n items) \<Longrightarrow> outcome_of (f i item) = outcome_of (g i item)"
  shows "outcome_of (for_each (\<lambda>(i, item). f i item) (enumerate n items))
       = outcome_of (for_each (\<lambda>(i, item). g i item) (enumerate n items))"
  by (rule outcome_for_each) (use assms in auto)

lemma outcome_of_Inl: "outcome_of (Inl e) \<noteq> Returns"
  by (cases e) auto

lemma outcome_seq:
  assumes "outcome_of a = outcome_of a'" and "a = Inr () \<Longrightarrow> outcome_of b = outcome_of b'"
  shows "outcome_of (case a of Inl e \<Rightarrow> Inl e | Inr _ \<Rightarrow> b)
       = outcome_of (case a' of Inl e \<Rightarrow> Inl e | Inr _ \<Rightarrow> b')"
proof (cases a)
  case (Inl e)
  then obtain e' where "a' = Inl e'"
    using assms(1) outcome_of_Inl [of e] by (cases a') auto
  with Inl assms(1) show ?thesis by simp
next
  case (Inr u)
  then have "a' = Inr ()" using assms(1) by (metis outcome_of_Returns old.unit.exhaust)
  with Inr assms(2) show ?thesis by simp
qed

lemma outcome_enforce_type_aux:
  "\<forall>p' c' ns'. outcome_of (enforce_type v t p c ns) = outcome_of (enforce_type v t p' c' ns')"
proof (induction v t p c ns rule: enforce_type.induct)
  case (1 "value" p condition notset_as_special)
  show ?case by simp
next
  case (2 "value" bound p condition notset_as_special)
  then show ?case by (cases bound) auto
next
  case (3 "value" arms p condition notset_as_special)
  show ?case
  proof (intro allI)
    fix p' c' ns'
    show "outcome_of (enforce_type value (TUnion arms) p condition notset_as_special) =
          outcome_of (enforce_type value (TUnion arms) p' c' ns')"
      unfolding enforce_type.simps
      by (rule outcome_try_arms) (use 3 in blast)
  qed
next
  case (4 "value" args p condition notset_as_special)
  show ?case by (cases "value") (simp_all add: Let_def split: option.splits bool.splits)
next
  case (5 "value" args p condition notset_as_special)
  show ?case
  proof (cases "value")
    case (VDict items)
    show ?thesis
    proof (intro allI)
      fix p' c' ns'
      show "outcome_of (enforce_type value (TGeneric O_dict args) p condition notset_as_special) =
            outcome_of (enforce_type value (TGeneric O_dict args) p' c' ns')"
        unfolding VDict enforce_type.simps pyval.case
      proof (rule outcome_for_each)
        fix x assume x: "x \<in> set (enumerate 0 items)"
        obtain i k v where xeq: "x = (i, k, v)" by (cases x) auto
        have k: "outcome_of (enforce_type k (arg0 args) (index_path (add_attribute p ''keys()'') i) condition notset_as_special)
                  = outcome_of (enforce_type k (arg0 args) (index_path (add_attribute p' ''keys()'') i) c' ns')"
          using 5(1) [OF VDict x [unfolded xeq] refl refl] by blast
        have v: "outcome_of (enforce_type v (arg1 args) (add_index_or_key p k) condition notset_as_special)
                  = outcome_of (enforce_type v (arg1 args) (add_index_or_key p' k) c' ns')"
          if "enforce_type k (arg0 args) (index_path (add_attribute p ''keys()'') i) condition notset_as_special = Inr ()"
          using 5(2) [OF VDict x [unfolded xeq] refl refl that] by blast
        show "outcome_of (case x of (i, k, v) \<Rightarrow>
                 case enforce_type k (arg0 args) (index_path (add_attribute p ''keys()'') i) condition notset_as_special of
                   Inl e \<Rightarrow> Inl e
                 | Inr _ \<Rightarrow> enforce_type v (arg1 args) (add_index_or_key p k) condition notset_as_special)
            = outcome_of (case x of (i, k, v) \<Rightarrow>
                 case enforce_type k (arg0 args) (index_path (add_attribute p' ''keys()'') i) c' ns' of
                   Inl e \<Rightarrow> Inl e
                 | Inr _ \<Rightarrow> enforce_type v (arg1 args) (add_index_or_key p' k) c' ns')"
          unfolding xeq prod.case by (rule outcome_seq [OF k v])
      qed
    qed
  qed simp_all
next
  case (6 "value" args p condition notset_as_special)
  show ?case
  proof (cases "value")
    case (VTuple items)
    show ?thesis
    proof (cases "length args = 2 \<and> args ! 1 = TEllipsis")
      case True
      have "outcome_of (enforce_type item (arg0 args) (index_path p i) condition notset_as_special)
          = outcome_of (enforce_type item (arg0 args) (index_path p' i) c' ns')"
        if "(i, item) \<in> set (enumerate 0 items)" for i item p' c' ns'
        using 6(1) [OF VTuple True that] by blast
      then have "outcome_of (for_each (\<lambda>(i, item). enforce_type item (arg0 args) (index_path p i) condition notset_as_special) (enumerate 0 items))
          = outcome_of (for_each (\<lambda>(i, item). enforce_type item (arg0 args) (index_path p' i) c' ns') (enumerate 0 items))"
        for p' c' ns'
        by (intro outcome_index_loop)
      then show ?thesis
        unfolding VTuple using True by (simp del: for_each.simps)
    next
      case False
      show ?thesis
      proof (cases "args \<noteq> [] \<and> length items = length args")
        case ok: True
        then have a: "args \<noteq> []" and b: "\<not> length items \<noteq> length args" by simp_all
        have "outcome_of (case x of (i, item, elem_t) \<Rightarrow> enforce_type item elem_t (index_path p i) condition notset_as_special)
            = outcome_of (case x of (i, item, elem_t) \<Rightarrow> enforce_type item elem_t (index_path p' i) c' ns')"
          if "x \<in> set (enumerate 0 (zip items args))" for x p' c' ns'
        proof -
          obtain i item elem_t where xeq: "x = (i, item, elem_t)" by (cases x) auto
          show ?thesis
            unfolding xeq prod.case
            using 6(2) [OF VTuple False a b that [unfolded xeq] refl refl] by blast
        qed
        then have "outcome_of (for_each (\<lambda>(i, item, elem_t). enforce_type item elem_t (index_path p i) condition notset_as_special) (enumerate 0 (zip items args)))
            = outcome_of (for_each (\<lambda>(i, item, elem_t). enforce_type item elem_t (index_path p' i) c' ns') (enumerate 0 (zip items args)))"
          for p' c' ns'
          by (intro outcome_for_each)
        moreover have e: "(length args = 2 \<and> args ! 1 = TEllipsis) = False"
          "(args \<noteq> []) = True" "(length items \<noteq> length args) = False"
          using False ok by simp_all
        ultimately show ?thesis
          unfolding VTuple by (simp only: enforce_type.simps pyval.case e if_True if_False simp_thms)
      next
        case False2: False
        then show ?thesis unfolding VTuple using False by auto
      qed
    qed
  qed simp_all
next
  case (7 "value" args p condition notset_as_special)
  show ?case
  proof (cases "value")
    case (VList items)
    have "outcome_of (enforce_type item (arg0 args) (index_path p i) condition notset_as_special)
        = outcome_of (enforce_type item (arg0 args) (index_path p' i) c' ns')"
      if "(i, item) \<in> set (enumerate 0 items)" for i item p' c' ns'
      using 7 [OF VList that] by blast
    then show ?thesis
      unfolding VList by (simp only: enforce_type.simps pyval.case) (intro allI outcome_index_loop)
  qed simp_all
next
  case (8 "value" args p condition notset_as_special)
  show ?case
  proof (cases "value")
    case (VSet items)
    have "outcome_of (enforce_type item (arg0 args) (index_path p i) condition notset_as_special)
        = outcome_of (enforce_type item (arg0 args) (index_path p' i) c' ns')"
      if "(i, item) \<in> set (enumerate 0 items)" for i item p' c' ns'
      using 8 [OF VSet that] by blast
    then show ?thesis
      unfolding VSet by (simp only: enforce_type.simps pyval.case) (intro allI outcome_index_loop)
  qed simp_all
next
  case (9 "value" args p condition notset_as_special)
  show ?case
  proof (cases "value")
    case (VFrozenset items)
    have "outcome_of (enforce_type item (arg0 args) (index_path p i) condition notset_as_special)
        = outcome_of (enforce_type item (arg0 args) (index_path p' i) c' ns')"
      if "(i, item) \<in> set (enumerate 0 items)" for i item p' c' ns'
      using 9 [OF VFrozenset that] by blast
    then show ?thesis
      unfolding VFrozenset by (simp only: enforce_type.simps pyval.case) (intro allI outcome_index_loop)
  qed simp_all
next
  case (10 "value" args p condition notset_as_special)
  show ?case by simp
next
  case (11 "value" args p condition notset_as_special)
  show ?case
  proof (cases "value")
    case (VDict items)
    show ?thesis
    proof (intro allI)
      fix p' c' ns'
      show "outcome_of (enforce_type value (TGeneric O_Mapping args) p condition notset_as_special) =
            outcome_of (enforce_type value (TGeneric O_Mapping args) p' c' ns')"
        unfolding VDict enforce_type.simps pyval.case
      proof (rule outcome_for_each)
        fix x assume x: "x \<in> set (enumerate 0 items)"
        obtain i k v where xeq: "x = (i, k, v)" by (cases x) auto
        have k: "outcome_of (enforce_type k (arg0 args) (index_path (add_attribute p ''keys()'') i) condition notset_as_special)
                  = outcome_of (enforce_type k (arg0 args) (index_path (add_attribute p' ''keys()'') i) c' ns')"
          using 11(1) [OF VDict x [unfolded xeq] refl refl] by blast
        have v: "outcome_of (enforce_type v (arg1 args) (add_index_or_key p k) condition notset_as_special)
                  = outcome_of (enforce_type v (arg1 args) (add_index_or_key p' k) c' ns')"
          if "enforce_type k (arg0 args) (index_path (add_attribute p ''keys()'') i) condition notset_as_special = Inr ()"
          using 11(2) [OF VDict x [unfolded xeq] refl refl that] by blast
        show "outcome_of (case x of (i, k, v) \<Rightarrow>
                 case enforce_type k (arg0 args) (index_path (add_attribute p ''keys()'') i) condition notset_as_special of
                   Inl e \<Rightarrow> Inl e
                 | Inr _ \<Rightarrow> enforce_type v (arg1 args) (add_index_or_key p k) condition notset_as_special)
            = outcome_of (case x of (i, k, v) \<Rightarrow>
                 case enforce_type k (arg0 args) (index_path (add_attribute p' ''keys()'') i) c' ns' of
                   Inl e \<Rightarrow> Inl e
                 | Inr _ \<Rightarrow> enforce_type v (arg1 args) (add_index_or_key p' k) c' ns')"
          unfolding xeq prod.case by (rule outcome_seq [OF k v])
      qed
    qed
  qed simp_all
next
  case (12 "value" args p condition notset_as_special)
  show ?case
  proof (cases "is_Sequence value")
    case True
    then have t: "\<not> \<not> is_Sequence value" by simp
    have "outcome_of (enforce_type item (arg0 args) (index_path p i) condition notset_as_special)
        = outcome_of (enforce_type item (arg0 args) (index_path p' i) c' ns')"
      if "(i, item) \<in> set (enumerate 0 (iter_items value))" for i item p' c' ns'
      using 12 [OF t that] by blast
    then show ?thesis
      using True by (simp only: enforce_type.simps not_True_eq_False if_False) (intro allI outcome_index_loop)
  next
    case False
    then show ?thesis by simp
  qed
next
  case (13 "value" args p condition notset_as_special)
  show ?case
  proof (cases "is_Iterable value \<and> \<not> (isinstance value str_cls \<or> isinstance value bytes_cls)")
    case True
    then have t: "\<not> \<not> is_Iterable value" and u: "\<not> (isinstance value str_cls \<or> isinstance value bytes_cls)"
      by simp_all
    have "outcome_of (enforce_type item (arg0 args) (index_path p i) condition notset_as_special)
        = outcome_of (enforce_type item (arg0 args) (index_path p' i) c' ns')"
      if "(i, item) \<in> set (enumerate 0 (iter_items value))" for i item p' c' ns'
      using 13 [OF t u that] by blast
    then have "outcome_of (for_each (\<lambda>(i, item). enforce_type item (arg0 args) (index_path p i) condition notset_as_special) (enumerate 0 (iter_items value)))
        = outcome_of (for_each (\<lambda>(i, item). enforce_type item (arg0 args) (index_path p' i) c' ns') (enumerate 0 (iter_items value)))"
      for p' c' ns'
      by (intro outcome_index_loop)
    then show ?thesis
      using True by (simp del: for_each.simps)
  next
    case False
    then show ?thesis by auto
  qed
qed simp_all

lemma enforce_type_returns_anywhere:
  "enforce_type v t p c ns = Inr () \<longleftrightarrow> enforce_type v t p' c' ns' = Inr ()"
  using outcome_enforce_type_aux [of v t p c ns] by (metis outcome_of_Returns)

section \<open>A GU\_TypeValidationError carries a path below the given one\<close>

lemma path_extends_refl: "path_extends p p"
  by (simp add: path_extends_def)

lemma path_extends_trans: "path_extends r q \<Longrightarrow> path_extends q p \<Longrightarrow> path_extends r p"
  unfolding path_extends_def
  by (metis append_eq_conv_conj append_take_drop_id append_assoc)

lemma path_extends_add:
  "path_extends (index_path p i) p" "path_extends (add_attribute p a) p"
  "path_extends (add_index_or_key p k) p"
  by (simp_all add: path_extends_def index_path_def add_attribute_def add_index_or_key_def)

lemma try_arms_GU:
  "try_arms f arms (GU_TypeValidationError p m c) = Inl (GU_TypeValidationError q m' c')
   \<Longrightarrow> q = p \<and> m' = m \<and> c' = c"
  by (induction arms) (auto split: sum.splits error.splits)

lemma index_loop_Inl:
  assumes "for_each (\<lambda>(i, item). f i item) (enumerate n items) = Inl e"
  obtains i item where "(i, item) \<in> set (enumerate n items)" "f i item = Inl e"
  using for_each_Inl [OF assms] by auto

lemma enforce_type_error_path_aux:
  "\<forall>q m c'. enforce_type v t p c ns = Inl (GU_TypeValidationError q m c')
      \<longrightarrow> path_extends q p \<and> c' = c"
proof (induction v t p c ns rule: enforce_type.induct)
  case (1 "value" p condition notset_as_special)
  show ?case by simp
next
  case (2 "value" bound p condition notset_as_special)
  then show ?case by (cases bound) auto
next
  case (3 "value" arms p condition notset_as_special)
  show ?case
    by (auto simp only: enforce_type.simps dest!: try_arms_GU intro: path_extends_refl)
next
  case (4 "value" args p condition notset_as_special)
  show ?case
    by (cases "value")
       (auto simp: Let_def path_extends_refl split: option.splits bool.splits if_splits)
next
  case (5 "value" args p condition notset_as_special)
  show ?case
  proof (cases "value")
    case (VDict items)
    show ?thesis
    proof (intro allI impI)
      fix q m c'
      assume "enforce_type value (TGeneric O_dict args) p condition notset_as_special
                = Inl (GU_TypeValidationError q m c')"
      then have "for_each (\<lambda>(i, k, v).
              case enforce_type k (arg0 args)
                     (index_path (add_attribute p ''keys()'') i) condition notset_as_special of
                Inl e \<Rightarrow> Inl e
              | Inr _ \<Rightarrow>
                  enforce_type v (arg1 args) (add_index_or_key p k) condition notset_as_special)
            (enumerate 0 items) = Inl (GU_TypeValidationError q m c')"
        by (simp only: VDict enforce_type.simps pyval.case)
      from for_each_Inl [OF this] obtain x where mem: "x \<in> set (enumerate 0 items)"
        and err: "(case x of (i, k, v) \<Rightarrow>
              case enforce_type k (arg0 args)
                     (index_path (add_attribute p ''keys()'') i) condition notset_as_special of
                Inl e \<Rightarrow> Inl e
              | Inr _ \<Rightarrow>
                  enforce_type v (arg1 args) (add_index_or_key p k) condition notset_as_special)
            = Inl (GU_TypeValidationError q m c')"
        by blast
      obtain i k v where xeq: "x = (i, k, v)" by (cases x) auto
      let ?kc = "enforce_type k (arg0 args) (index_path (add_attribute p ''keys()'') i) condition notset_as_special"
      show "path_extends q p \<and> c' = condition"
      proof (cases ?kc)
        case (Inl e)
        with err have "?kc = Inl (GU_TypeValidationError q m c')" by (simp add: xeq)
        with 5(1) [OF VDict mem [unfolded xeq] refl refl]
        have "path_extends q (index_path (add_attribute p ''keys()'') i) \<and> c' = condition" by blast
        then show ?thesis
          using path_extends_trans path_extends_add(1,2) by blast
      next
        case (Inr u)
        then have kc: "?kc = Inr ()" by simp
        with err have "enforce_type v (arg1 args) (add_index_or_key p k) condition notset_as_special
                         = Inl (GU_TypeValidationError q m c')" by (simp add: xeq)
        with 5(2) [OF VDict mem [unfolded xeq] refl refl kc]
        have "path_extends q (add_index_or_key p k) \<and> c' = condition" by blast
        then show ?thesis
          using path_extends_trans path_extends_add(3) by blast
      qed
    qed
  qed (simp_all add: path_extends_refl)
next
  case (6 "value" args p condition notset_as_special)
  show ?case
  proof (cases "value")
    case (VTuple items)
    show ?thesis
    proof (cases "length args = 2 \<and> args ! 1 = TEllipsis")
      case True
      then have e: "(length args = 2 \<and> args ! 1 = TEllipsis) = True" by simp
      show ?thesis
      proof (intro allI impI)
        fix q m c'
        assume "enforce_type value (TGeneric O_tuple args) p condition notset_as_special
                  = Inl (GU_TypeValidationError q m c')"
        then have "for_each (\<lambda>(i, item). enforce_type item (arg0 args) (index_path p i) condition notset_as_special)
                     (enumerate 0 items) = Inl (GU_TypeValidationError q m c')"
          by (simp only: VTuple enforce_type.simps pyval.case e if_True)
        then obtain i item where mem: "(i, item) \<in> set (enumerate 0 items)"
          and err: "enforce_type item (arg0 args) (index_path p i) condition notset_as_special
                      = Inl (GU_TypeValidationError q m c')"
          by (rule index_loop_Inl)
        from 6(1) [OF VTuple True mem] err have "path_extends q (index_path p i) \<and> c' = condition" by blast
        then show "path_extends q p \<and> c' = condition"
          using path_extends_trans path_extends_add(1) by blast
      qed
    next
      case False
      show ?thesis
      proof (cases "args \<noteq> [] \<and> length items = length args")
        case ok: True
        then have a: "args \<noteq> []" and b: "\<not> length items \<noteq> length args" by simp_all
        have e: "(length args = 2 \<and> args ! 1 = TEllipsis) = False"
          "(args \<noteq> []) = True" "(length items \<noteq> length args) = False"
          using False ok by simp_all
        show ?thesis
        proof (intro allI impI)
          fix q m c'
          assume "enforce_type value (TGeneric O_tuple args) p condition notset_as_special
                    = Inl (GU_TypeValidationError q m c')"
          then have "for_each (\<lambda>(i, item, elem_t). enforce_type item elem_t (index_path p i) condition notset_as_special)
                       (enumerate 0 (zip items args)) = Inl (GU_TypeValidationError q m c')"
            by (simp only: VTuple enforce_type.simps pyval.case e if_True if_False)
          from for_each_Inl [OF this] obtain x where mem: "x \<in> set (enumerate 0 (zip items args))"
            and err: "(case x of (i, item, elem_t) \<Rightarrow>
                         enforce_type item elem_t (index_path p i) condition notset_as_special)
                      = Inl (GU_TypeValidationError q m c')"
            by blast
          obtain i item elem_t where xeq: "x = (i, item, elem_t)" by (cases x) auto
          from err have "enforce_type item elem_t (index_path p i) condition notset_as_special
                      = Inl (GU_TypeValidationError q m c')" by (simp add: xeq)
          with 6(2) [OF VTuple False a b mem [unfolded xeq] refl refl]
          have "path_extends q (index_path p i) \<and> c' = condition" by blast
          then show "path_extends q p \<and> c' = condition"
            using path_extends_trans path_extends_add(1) by blast
        qed
      next
        case False2: False
        then show ?thesis unfolding VTuple using False by (auto simp: path_extends_refl)
      qed
    qed
  qed (simp_all add: path_extends_refl)
next
  case (7 "value" args p condition notset_as_special)
  show ?case
  proof (cases "value")
    case (VList items)
    show ?thesis
    proof (intro allI impI)
      fix q m c'
      assume "enforce_type value (TGeneric O_list args) p condition notset_as_special
                = Inl (GU_TypeValidationError q m c')"
      then have "for_each (\<lambda>(i, item). enforce_type item (arg0 args) (index_path p i) condition notset_as_special)
                   (enumerate 0 items) = Inl (GU_TypeValidationError q m c')"
        by (simp only: VList enforce_type.simps pyval.case)
      then obtain i item where mem: "(i, item) \<in> set (enumerate 0 items)"
        and err: "enforce_type item (arg0 args) (index_path p i) condition notset_as_special
                    = Inl (GU_TypeValidationError q m c')"
        by (rule index_loop_Inl)
      from 7 [OF VList mem] err have "path_extends q (index_path p i) \<and> c' = condition" by blast
      then show "path_extends q p \<and> c' = condition"
        using path_extends_trans path_extends_add(1) by blast
    qed
  qed (simp_all add: path_extends_refl)
next
  case (8 "value" args p condition notset_as_special)
  show ?case
  proof (cases "value")
    case (VSet items)
    show ?thesis
    proof (intro allI impI)
      fix q m c'
      assume "enforce_type value (TGeneric O_set args) p condition notset_as_special
                = Inl (GU_TypeValidationError q m c')"
      then have "for_each (\<lambda>(i, item). enforce_type item (arg0 args) (index_path p i) condition notset_as_special)
                   (enumerate 0 items) = Inl (GU_TypeValidationError q m c')"
        by (simp only: VSet enforce_type.simps pyval.case)
      then obtain i item where mem: "(i, item) \<in> set (enumerate 0 items)"
        and err: "enforce_type item (arg0 args) (index_path p i) condition notset_as_special
                    = Inl (GU_TypeValidationError q m c')"
        by (rule index_loop_Inl)
      from 8 [OF VSet mem] err have "path_extends q (index_path p i) \<and> c' = condition" by blast
      then show "path_extends q p \<and> c' = condition"
        using path_extends_trans path_extends_add(1) by blast
    qed
  qed (simp_all add: path_extends_refl)
next
  case (9 "value" args p condition notset_as_special)
  show ?case
  proof (cases "value")
    case (VFrozenset items)
    show ?thesis
    proof (intro allI impI)
      fix q m c'
      assume "enforce_type value (TGeneric O_frozenset args) p condition notset_as_special
                = Inl (GU_TypeValidationError q m c')"
      then have "for_each (\<lambda>(i, item). enforce_type item (arg0 args) (index_path p i) condition notset_as_special)
                   (enumerate 0 items) = Inl (GU_TypeValidationError q m c')"
        by (simp only: VFrozenset enforce_type.simps pyval.case)
      then obtain i item where mem: "(i, item) \<in> set (enumerate 0 items)"
        and err: "enforce_type item (arg0 args) (index_path p i) condition notset_as_special
                    = Inl (GU_TypeValidationError q m c')"
        by (rule index_loop_Inl)
      from 9 [OF VFrozenset mem] err have "path_extends q (index_path p i) \<and> c' = condition" by blast
      then show "path_extends q p \<and> c' = condition"
        using path_extends_trans path_extends_add(1) by blast
    qed
  qed (simp_all add: path_extends_refl)
next
  case (10 "value" args p condition notset_as_special)
  show ?case by (simp add: path_extends_refl)
next
  case (11 "value" args p condition notset_as_special)
  show ?case
  proof (cases "value")
    case (VDict items)
    show ?thesis
    proof (intro allI impI)
      fix q m c'
      assume "enforce_type value (TGeneric O_Mapping args) p condition notset_as_special
                = Inl (GU_TypeValidationError q m c')"
      then have "for_each (\<lambda>(i, k, v).
              case enforce_type k (arg0 args)
                     (index_path (add_attribute p ''keys()'') i) condition notset_as_special of
                Inl e \<Rightarrow> Inl e
              | Inr _ \<Rightarrow>
                  enforce_type v (arg1 args) (add_index_or_key p k) condition notset_as_special)
            (enumerate 0 items) = Inl (GU_TypeValidationError q m c')"
        by (simp only: VDict enforce_type.simps pyval.case)
      from for_each_Inl [OF this] obtain x where mem: "x \<in> set (enumerate 0 items)"
        and err: "(case x of (i, k, v) \<Rightarrow>
              case enforce_type k (arg0 args)
                     (index_path (add_attribute p ''keys()'') i) condition notset_as_special of
                Inl e \<Rightarrow> Inl e
              | Inr _ \<Rightarrow>
                  enforce_type v (arg1 args) (add_index_or_key p k) condition notset_as_special)
            = Inl (GU_TypeValidationError q m c')"
        by blast
      obtain i k v where xeq: "x = (i, k, v)" by (cases x) auto
      let ?kc = "enforce_type k (arg0 args) (index_path (add_attribute p ''keys()'') i) condition notset_as_special"
      show "path_extends q p \<and> c' = condition"
      proof (cases ?kc)
        case (Inl e)
        with err have "?kc = Inl (GU_TypeValidationError q m c')" by (simp add: xeq)
        with 11(1) [OF VDict mem [unfolded xeq] refl refl]
        have "path_extends q (index_path (add_attribute p ''keys()'') i) \<and> c' = condition" by blast
        then show ?thesis
          using path_extends_trans path_extends_add(1,2) by blast
      next
        case (Inr u)
        then have kc: "?kc = Inr ()" by simp
        with err have "enforce_type v (arg1 args) (add_index_or_key p k) condition notset_as_special
                         = Inl (GU_TypeValidationError q m c')" by (simp add: xeq)
        with 11(2) [OF VDict mem [unfolded xeq] refl refl kc]
        have "path_extends q (add_index_or_key p k) \<and> c' = condition" by blast
        then show ?thesis
          using path_extends_trans path_extends_add(3) by blast
      qed
    qed
  qed (simp_all add: path_extends_refl)
next
  case (12 "value" args p condition notset_as_special)
  show ?case
  proof (cases "is_Sequence value")
    case True
    then have t: "\<not> \<not> is_Sequence value" by simp_all
    show ?thesis
    proof (intro allI impI)
      fix q m c'
      assume "enforce_type value (TGeneric O_Sequence args) p condition notset_as_special
                = Inl (GU_TypeValidationError q m c')"
      then have "for_each (\<lambda>(i, item). enforce_type item (arg0 args) (index_path p i) condition notset_as_special)
                   (enumerate 0 (iter_items value)) = Inl (GU_TypeValidationError q m c')"
        using True by (simp del: for_each.simps)
      then obtain i item where mem: "(i, item) \<in> set (enumerate 0 (iter_items value))"
        and err: "enforce_type item (arg0 args) (index_path p i) condition notset_as_special
                    = Inl (GU_TypeValidationError q m c')"
        by (rule index_loop_Inl)
      from 12 [OF t mem] err have "path_extends q (index_path p i) \<and> c' = condition" by blast
      then show "path_extends q p \<and> c' = condition"
        using path_extends_trans path_extends_add(1) by blast
    qed
  next
    case False
    then show ?thesis by (auto simp: path_extends_refl)
  qed
next
  case (13 "value" args p condition notset_as_special)
  show ?case
  proof (cases "is_Iterable value \<and> \<not> (isinstance value str_cls \<or> isinstance value bytes_cls)")
    case True
    then have t: "\<not> \<not> is_Iterable value" and u: "\<not> (isinstance value str_cls \<or> isinstance value bytes_cls)"
      by simp_all
    show ?thesis
    proof (intro allI impI)
      fix q m c'
      assume "enforce_type value (TGeneric O_Iterable args) p condition notset_as_special
                = Inl (GU_TypeValidationError q m c')"
      then have "for_each (\<lambda>(i, item). enforce_type item (arg0 args) (index_path p i) condition notset_as_special)
                   (enumerate 0 (iter_items value)) = Inl (GU_TypeValidationError q m c')"
        using True by (simp del: for_each.simps)
      then obtain i item where mem: "(i, item) \<in> set (enumerate 0 (iter_items value))"
        and err: "enforce_type item (arg0 args) (index_path p i) condition notset_as_special
                    = Inl (GU_TypeValidationError q m c')"
        by (rule index_loop_Inl)
      from 13 [OF t u mem] err have "path_extends q (index_path p i) \<and> c' = condition" by blast
      then show "path_extends q p \<and> c' = condition"
        using path_extends_trans path_extends_add(1) by blast
    qed
  next
    case False
    then show ?thesis by (auto simp: path_extends_refl)
  qed
qed (simp_all add: path_extends_refl)

lemma enforce_type_error_path:
  "enforce_type v t p c ns = Inl (GU_TypeValidationError q m c') \<Longrightarrow> path_extends q p \<and> c' = c"
  using enforce_type_error_path_aux by blast

section \<open>Loops over an enumeration\<close>

lemma for_each_first_failure_map: "for_each f xs = first_failure (map f xs)"
  by (induction xs) (auto split: sum.splits)

lemma for_each_seq_first_failure:
  "for_each (\<lambda>x. case f x of Inl e \<Rightarrow> Inl e | Inr _ \<Rightarrow> g x) xs
     = first_failure (concat (map (\<lambda>x. [f x, g x]) xs))"
  by (induction xs) (auto split: sum.splits)

lemma for_each_enumerate_Inr:
  "for_each (\<lambda>(i, x). f i x) (enumerate n xs) = Inr ()
     \<longleftrightarrow> (\<forall>j<length xs. f (n + j) (xs ! j) = Inr ())"
proof (induction xs arbitrary: n)
  case Nil
  show ?case by simp
next
  case (Cons x xs)
  have "for_each (\<lambda>(i, x). f i x) (enumerate n (x # xs)) = Inr ()
        \<longleftrightarrow> f n x = Inr () \<and> for_each (\<lambda>(i, x). f i x) (enumerate (Suc n) xs) = Inr ()"
    by (cases "f n x") auto
  also have "\<dots> \<longleftrightarrow> f n x = Inr () \<and> (\<forall>j<length xs. f (Suc n + j) (xs ! j) = Inr ())"
    by (simp only: Cons.IH)
  also have "\<dots> \<longleftrightarrow> (\<forall>j<length (x # xs). f (n + j) ((x # xs) ! j) = Inr ())"
    by (auto simp: less_Suc_eq_0_disj)
  finally show ?case .
qed

lemma for_each_enumerate_first:
  "i < length xs \<Longrightarrow> (\<forall>j<i. f (n + j) (xs ! j) = Inr ()) \<Longrightarrow> f (n + i) (xs ! i) \<noteq> Inr ()
   \<Longrightarrow> for_each (\<lambda>(i, x). f i x) (enumerate n xs) = f (n + i) (xs ! i)"
proof (induction xs arbitrary: n i)
  case Nil
  then show ?case by simp
next
  case (Cons x xs)
  show ?case
  proof (cases i)
    case 0
    with Cons.prems show ?thesis by (cases "f n x") auto
  next
    case (Suc k)
    have hd: "f n x = Inr ()" using Cons.prems(2) Suc by (metis add.right_neutral nth_Cons_0 zero_less_Suc)
    have "for_each (\<lambda>(i, x). f i x) (enumerate (Suc n) xs) = f (Suc n + k) (xs ! k)"
    proof (rule Cons.IH)
      show "k < length xs" using Cons.prems(1) Suc by simp
      show "\<forall>j<k. f (Suc n + j) (xs ! j) = Inr ()"
        using Cons.prems(2) Suc by (metis Suc_less_eq add_Suc_shift nth_Cons_Suc)
      show "f (Suc n + k) (xs ! k) \<noteq> Inr ()"
        using Cons.prems(3) Suc by simp
    qed
    with hd Suc show ?thesis by simp
  qed
qed

lemma enumerate_map:
  "enumerate n (map g xs) = map (\<lambda>(i, x). (i, g x)) (enumerate n xs)"
  by (induction xs arbitrary: n) auto

lemma for_each_triple_first_failure:
  "for_each (\<lambda>(i, k, v). case f i k v of Inl e \<Rightarrow> Inl e | Inr _ \<Rightarrow> g i k v) xs
     = first_failure (concat (map (\<lambda>(i, k, v). [f i k v, g i k v]) xs))"
  by (induction xs) (auto split: sum.splits prod.splits)

lemmas builtin_defs = isinstance_def issubclass_def abc_registered_def cls_defs

section \<open>Union types\<close>

text \<open>
  C1, as amended. For a union of two arms \<open>A\<close>, \<open>B\<close> such that neither arm check raises
  an exception other than GU\_TypeValidationError: the check against the union returns
  normally if and only if the check against \<open>A\<close> or the check against \<open>B\<close> does; and
  when both arms fail, it raises one GU\_TypeValidationError at the given path and
  condition, whose message names the union type and the type of the value.
\<close>

theorem enforce_type_union_two_arms:
  assumes "outcome_of (enforce_type v A p c ns) \<noteq> Crashes"
    and "outcome_of (enforce_type v B p c ns) \<noteq> Crashes"
  shows "(enforce_type v (TUnion [A, B]) p c ns = Inr ()
            \<longleftrightarrow> enforce_type v A p c ns = Inr () \<or> enforce_type v B p c ns = Inr ())
         \<and> (enforce_type v A p c ns \<noteq> Inr () \<and> enforce_type v B p c ns \<noteq> Inr ()
              \<longrightarrow> enforce_type v (TUnion [A, B]) p c ns
                    = Inl (GU_TypeValidationError p
                             (MustBeOneOfTypes (ReprStr (TUnion [A, B]))
                                (repr_type (TClass (type_of v)) ns)) c))"
proof -
  let ?a = "enforce_type v A p c ns" and ?b = "enforce_type v B p c ns"
  have unfold: "enforce_type v (TUnion [A, B]) p c ns =
      (case outcome_of ?a of
         Returns \<Rightarrow> Inr ()
       | Rejects \<Rightarrow>
           (case outcome_of ?b of
              Returns \<Rightarrow> Inr ()
            | Rejects \<Rightarrow> Inl (GU_TypeValidationError p
                 (MustBeOneOfTypes (ReprStr (TUnion [A, B])) (repr_type (TClass (type_of v)) ns)) c)
            | Crashes \<Rightarrow> ?b)
       | Crashes \<Rightarrow> ?a)"
    by (simp only: enforce_type.simps try_arms_Cons_outcome try_arms.simps repr_type.simps)
  show ?thesis
  proof (cases "outcome_of ?a")
    case Returns
    then show ?thesis using unfold by (simp add: outcome_of_Returns)
  next
    case ra: Rejects
    then have a: "?a \<noteq> Inr ()" by (auto simp: outcome_of_Rejects)
    show ?thesis
    proof (cases "outcome_of ?b")
      case Returns
      with ra a show ?thesis using unfold by (simp add: outcome_of_Returns)
    next
      case Rejects
      then have "?b \<noteq> Inr ()" by (auto simp: outcome_of_Rejects)
      with ra a Rejects show ?thesis using unfold by simp
    next
      case Crashes
      with assms show ?thesis by simp
    qed
  next
    case Crashes
    with assms show ?thesis by simp
  qed
qed

text \<open>
  The theorem at \<open>int | None\<close> with the value \<open>'x'\<close> (both arms fail) and at
  \<open>str | int\<close> with the value \<open>3\<close> (the second arm accepts).
\<close>

theorem enforce_type_union_two_arms_witness:
  "outcome_of (enforce_type (VStr ''x'') (TClass int_cls) empty_path None True) \<noteq> Crashes
   \<and> outcome_of (enforce_type (VStr ''x'') (TClass NoneType_cls) empty_path None True) \<noteq> Crashes
   \<and> enforce_type (VStr ''x'') (TUnion [TClass int_cls, TClass NoneType_cls]) empty_path None True
       = Inl (GU_TypeValidationError empty_path
                (MustBeOneOfTypes (ReprStr (TUnion [TClass int_cls, TClass NoneType_cls]))
                   (ReprName ''str'')) None)
   \<and> enforce_type (VInt 3) (TUnion [TClass str_cls, TClass int_cls]) empty_path None True = Inr ()"
  using enforce_type_union_two_arms
          [of "VStr ''x''" "TClass int_cls" empty_path None True "TClass NoneType_cls"]
        enforce_type_union_two_arms
          [of "VInt 3" "TClass str_cls" empty_path None True "TClass int_cls"]
  by (simp add: builtin_defs)

text \<open>
  C1 as stated fails. With the value \<open>int\<close> (the class) and the union
  \<open>type[list[int]] | type[int]\<close>, the first arm calls \<open>issubclass(int, (list[int],))\<close>,
  which raises TypeError; the loop over the arms catches GU\_TypeValidationError only, so
  the TypeError leaves the union check although the second arm accepts the value.
\<close>

theorem enforce_type_union_counterexample:
  "\<not> (enforce_type (VClass int_cls)
          (TUnion [TGeneric O_type [TGeneric O_list [TClass int_cls]],
                   TGeneric O_type [TClass int_cls]])
          empty_path None True = Inr ()
        \<longleftrightarrow> enforce_type (VClass int_cls) (TGeneric O_type [TGeneric O_list [TClass int_cls]])
              empty_path None True = Inr ()
          \<or> enforce_type (VClass int_cls) (TGeneric O_type [TClass int_cls])
              empty_path None True = Inr ())"
  by (simp add: builtin_defs)

section \<open>Paths: go\_up\<close>

text \<open>For \<open>n \<ge> 1\<close>, \<open>go_up\<close> drops the last \<open>min(n, len)\<close> segments and keeps the flag.\<close>

lemma go_up_positive:
  "0 < n \<Longrightarrow> go_up p n = AbstractTreePath (take (length (path p) - nat n) (path p)) (start_with_dot p)"
  by (auto simp: go_up_def getitem_slice_stop_def slice_stop_def Let_def max_def nat_diff_distrib'
        intro: arg_cong [where f = "\<lambda>k. take k (path p)"])

text \<open>
  C3. \<open>go_up\<close> is documented as removing the last \<open>n\<close> elements, and the claim asks
  that \<open>go_up(0)\<close> return a path equal to the receiver. The slice \<open>self[:-0]\<close> is
  \<open>self[:0]\<close>: on the one-segment path \<open>.a\<close>, \<open>go_up(0)\<close> returns the empty path, which
  differs from the receiver.
\<close>

theorem go_up_zero_drops_everything:
  "go_up (AbstractTreePath [ATPathAttribute ''a''] True) 0 = AbstractTreePath [] True
   \<and> go_up (AbstractTreePath [ATPathAttribute ''a''] True) 0
       \<noteq> AbstractTreePath [ATPathAttribute ''a''] True"
  by (simp add: go_up_def getitem_slice_stop_def slice_stop_def)

section \<open>Paths: equality and hash\<close>




section \<open>Fixed-length tuples\<close>



section \<open>Iterable and Sequence\<close>

text \<open>
  C8. For every str or bytes value and every argument list of \<open>Iterable\<close>, the check
  against \<open>Iterable[...]\<close> returns normally: no element is checked, whatever the element
  type is.
\<close>

theorem enforce_type_Iterable_str_bytes:
  "enforce_type (VStr s) (TGeneric O_Iterable args) p c ns = Inr ()
   \<and> enforce_type (VBytes b) (TGeneric O_Iterable args) p c ns = Inr ()"
  by (simp add: builtin_defs)

text \<open>
  C9. Against \<open>Sequence[T]\<close> a str is traversed: the result is that of checking each
  character, a str of length one, against \<open>T\<close> at the path extended by its index, in
  order, up to the first failure. \<open>'ab'\<close> passes \<open>Sequence[str]\<close>, and against
  \<open>Sequence[int]\<close> it raises at the path extended by index 0.
\<close>

theorem enforce_type_Sequence_str:
  "enforce_type (VStr s) (TGeneric O_Sequence [T]) p c ns
     = first_failure (map (\<lambda>(i, ch). enforce_type (VStr [ch]) T (index_path p i) c ns) (enumerate 0 s))
   \<and> enforce_type (VStr ''ab'') (TGeneric O_Sequence [TClass str_cls]) p c ns = Inr ()
   \<and> enforce_type (VStr ''ab'') (TGeneric O_Sequence [TClass int_cls]) p c ns
       = Inl (GU_TypeValidationError (add_index_or_key p (VInt 0))
                (MustBeOfType (ReprName ''int'') (ReprName ''str'')) c)"
proof (intro conjI)
  have "enforce_type (VStr s) (TGeneric O_Sequence [T]) p c ns
        = for_each (\<lambda>(i, item). enforce_type item T (index_path p i) c ns)
            (enumerate 0 (map (\<lambda>ch. VStr [ch]) s))"
    by (simp add: arg0_def del: for_each.simps)
  also have "\<dots> = first_failure (map (\<lambda>(i, ch). enforce_type (VStr [ch]) T (index_path p i) c ns) (enumerate 0 s))"
    by (simp add: enumerate_map for_each_first_failure_map comp_def case_prod_unfold)
  finally show "enforce_type (VStr s) (TGeneric O_Sequence [T]) p c ns
     = first_failure (map (\<lambda>(i, ch). enforce_type (VStr [ch]) T (index_path p i) c ns) (enumerate 0 s))" .
  show "enforce_type (VStr ''ab'') (TGeneric O_Sequence [TClass str_cls]) p c ns = Inr ()"
    by (simp add: builtin_defs arg0_def)
  show "enforce_type (VStr ''ab'') (TGeneric O_Sequence [TClass int_cls]) p c ns
       = Inl (GU_TypeValidationError (add_index_or_key p (VInt 0))
                (MustBeOfType (ReprName ''int'') (ReprName ''str'')) c)"
    by (simp add: builtin_defs arg0_def index_path_def)
qed

section \<open>Lists\<close>

text \<open>
  C2. The check of \<open>L\<close> against \<open>list[T]\<close> returns normally if and only if \<open>L\<close> is a
  list and the check of every element against \<open>T\<close> returns normally (wherever that check
  is reported: \<open>p0\<close>, \<open>c0\<close>, \<open>ns0\<close> are arbitrary). A value that is not a list raises
  GU\_TypeValidationError at the given path. When the element at index \<open>i\<close> is the first
  one that fails, the check raises what the check of that element raises at the path
  extended by \<open>i\<close>, and the path of a GU\_TypeValidationError so raised extends that path.
\<close>

theorem enforce_type_list:
  "(enforce_type L (TGeneric O_list [T]) p c ns = Inr ()
      \<longleftrightarrow> (\<exists>items. L = VList items \<and> (\<forall>e\<in>set items. enforce_type e T p0 c0 ns0 = Inr ())))
   \<and> ((\<forall>items. L \<noteq> VList items) \<longrightarrow>
        enforce_type L (TGeneric O_list [T]) p c ns
          = Inl (GU_TypeValidationError p (MustBeA ''list'' (repr_type (TClass (type_of L)) ns)) c))
   \<and> (\<forall>items i. L = VList items \<and> i < length items
          \<and> (\<forall>j<i. enforce_type (items ! j) T p0 c0 ns0 = Inr ())
          \<and> enforce_type (items ! i) T p0 c0 ns0 \<noteq> Inr ()
        \<longrightarrow> enforce_type L (TGeneric O_list [T]) p c ns
              = enforce_type (items ! i) T (index_path p i) c ns
            \<and> enforce_type L (TGeneric O_list [T]) p c ns \<noteq> Inr ()
            \<and> (\<forall>q m c'. enforce_type L (TGeneric O_list [T]) p c ns = Inl (GU_TypeValidationError q m c')
                  \<longrightarrow> path_extends q (index_path p i) \<and> c' = c))"
proof (intro conjI allI impI)
  show "enforce_type L (TGeneric O_list [T]) p c ns = Inr ()
      \<longleftrightarrow> (\<exists>items. L = VList items \<and> (\<forall>e\<in>set items. enforce_type e T p0 c0 ns0 = Inr ()))"
  proof (cases L)
    case (VList items)
    have "enforce_type L (TGeneric O_list [T]) p c ns = Inr ()
          \<longleftrightarrow> (\<forall>j<length items. enforce_type (items ! j) T (index_path p (0 + j)) c ns = Inr ())"
      unfolding VList by (simp only: enforce_type.simps pyval.case for_each_enumerate_Inr arg0_def list.case)
    also have "\<dots> \<longleftrightarrow> (\<forall>j<length items. enforce_type (items ! j) T p0 c0 ns0 = Inr ())"
      using enforce_type_returns_anywhere by blast
    also have "\<dots> \<longleftrightarrow> (\<forall>e\<in>set items. enforce_type e T p0 c0 ns0 = Inr ())"
      by (simp add: all_set_conv_all_nth)
    finally show ?thesis using VList by simp
  qed simp_all
next
  assume "\<forall>items. L \<noteq> VList items"
  then show "enforce_type L (TGeneric O_list [T]) p c ns
          = Inl (GU_TypeValidationError p (MustBeA ''list'' (repr_type (TClass (type_of L)) ns)) c)"
    by (cases L) (simp_all del: repr_type.simps)
next
  fix items i
  assume a: "L = VList items \<and> i < length items
          \<and> (\<forall>j<i. enforce_type (items ! j) T p0 c0 ns0 = Inr ())
          \<and> enforce_type (items ! i) T p0 c0 ns0 \<noteq> Inr ()"
  then have L: "L = VList items" and i: "i < length items" by simp_all
  have before: "\<forall>j<i. enforce_type (items ! j) T (index_path p (0 + j)) c ns = Inr ()"
    using a enforce_type_returns_anywhere by blast
  have at: "enforce_type (items ! i) T (index_path p (0 + i)) c ns \<noteq> Inr ()"
    using a enforce_type_returns_anywhere by blast
  have "for_each (\<lambda>(i, x). enforce_type x T (index_path p i) c ns) (enumerate 0 items)
          = enforce_type (items ! i) T (index_path p (0 + i)) c ns"
    using i before at by (rule for_each_enumerate_first)
  then show eq: "enforce_type L (TGeneric O_list [T]) p c ns
              = enforce_type (items ! i) T (index_path p i) c ns"
    unfolding L by (simp only: enforce_type.simps pyval.case arg0_def list.case add_0)
  show "enforce_type L (TGeneric O_list [T]) p c ns \<noteq> Inr ()"
    using eq at by simp
  fix q m c'
  assume "enforce_type L (TGeneric O_list [T]) p c ns = Inl (GU_TypeValidationError q m c')"
  then show "path_extends q (index_path p i)" and "c' = c"
    using eq enforce_type_error_path by metis+
qed

text \<open>
  Scenario A and two more inputs: \<open>[1, 2]\<close> passes, \<open>5\<close> is not a list, and
  \<open>[1, '2', 3]\<close> fails at index 1.
\<close>

theorem enforce_type_list_witness:
  "enforce_type (VList [VInt 1, VInt 2]) (TGeneric O_list [TClass int_cls]) empty_path None True = Inr ()
   \<and> enforce_type (VInt 5) (TGeneric O_list [TClass int_cls]) empty_path None True
       = Inl (GU_TypeValidationError empty_path (MustBeA ''list'' (ReprName ''int'')) None)
   \<and> enforce_type (VList [VInt 1, VStr ''2'', VInt 3]) (TGeneric O_list [TClass int_cls]) empty_path None True
       = enforce_type (VStr ''2'') (TClass int_cls) (index_path empty_path 1) None True
   \<and> enforce_type (VList [VInt 1, VStr ''2'', VInt 3]) (TGeneric O_list [TClass int_cls]) empty_path None True
       = Inl (GU_TypeValidationError (AbstractTreePath [ATPathIndexOrKey (VInt 1)] True)
                (MustBeOfType (ReprName ''int'') (ReprName ''str'')) None)
   \<and> path_extends (AbstractTreePath [ATPathIndexOrKey (VInt 1)] True) (index_path empty_path 1)"
  using enforce_type_list [of "VList [VInt 1, VInt 2]" "TClass int_cls" empty_path None True empty_path None True]
        enforce_type_list [of "VInt 5" "TClass int_cls" empty_path None True empty_path None True]
        enforce_type_list [of "VList [VInt 1, VStr ''2'', VInt 3]" "TClass int_cls" empty_path None True
                              empty_path None True,
                           THEN conjunct2, THEN conjunct2, rule_format, of "[VInt 1, VStr ''2'', VInt 3]" 1]
  by (simp add: builtin_defs empty_path_def index_path_def add_index_or_key_def path_extends_def)

section \<open>Dicts\<close>

text \<open>
  C5. Against \<open>dict[K, V]\<close> the items of a dict are taken in order; for the item
  number \<open>i\<close> with key \<open>k\<close> and value \<open>v\<close>, \<open>k\<close> is checked against \<open>K\<close> at the path
  extended by the attribute \<open>keys()\<close> and the index \<open>i\<close>, then \<open>v\<close> against \<open>V\<close> at the
  path extended by \<open>k\<close>; the first failure is raised. Scenario B: \<open>{'a': 1, 'b': 2}\<close>
  passes \<open>dict[str, int]\<close>, and \<open>{1: 1}\<close> raises at the path extended by \<open>keys()\<close> and 0.
\<close>

theorem enforce_type_dict:
  "enforce_type (VDict items) (TGeneric O_dict [K, V]) p c ns
     = first_failure (concat (map (\<lambda>(i, k, v).
           [enforce_type k K (add_index_or_key (add_attribute p ''keys()'') (VInt (int i))) c ns,
            enforce_type v V (add_index_or_key p k) c ns])
         (enumerate 0 items)))
   \<and> enforce_type (VDict [(VStr ''a'', VInt 1), (VStr ''b'', VInt 2)])
         (TGeneric O_dict [TClass str_cls, TClass int_cls]) p c ns = Inr ()
   \<and> enforce_type (VDict [(VInt 1, VInt 1)]) (TGeneric O_dict [TClass str_cls, TClass int_cls]) p c ns
       = Inl (GU_TypeValidationError
                (add_index_or_key (add_attribute p ''keys()'') (VInt 0))
                (MustBeOfType (ReprName ''str'') (ReprName ''int'')) c)"
proof (intro conjI)
  show "enforce_type (VDict items) (TGeneric O_dict [K, V]) p c ns
     = first_failure (concat (map (\<lambda>(i, k, v).
           [enforce_type k K (add_index_or_key (add_attribute p ''keys()'') (VInt (int i))) c ns,
            enforce_type v V (add_index_or_key p k) c ns])
         (enumerate 0 items)))"
    by (simp only: enforce_type.simps pyval.case arg0_def arg1_def list.case index_path_def
          for_each_triple_first_failure)
  show "enforce_type (VDict [(VStr ''a'', VInt 1), (VStr ''b'', VInt 2)])
         (TGeneric O_dict [TClass str_cls, TClass int_cls]) p c ns = Inr ()"
    by (simp add: builtin_defs arg0_def arg1_def)
  show "enforce_type (VDict [(VInt 1, VInt 1)]) (TGeneric O_dict [TClass str_cls, TClass int_cls]) p c ns
       = Inl (GU_TypeValidationError
                (add_index_or_key (add_attribute p ''keys()'') (VInt 0))
                (MustBeOfType (ReprName ''str'') (ReprName ''int'')) c)"
    by (simp add: builtin_defs arg0_def arg1_def index_path_def)
qed

section \<open>Validation of a record with an absent field\<close>

lemma for_each_append:
  "for_each g (xs @ ys) = (case for_each g xs of Inl e \<Rightarrow> Inl e | Inr _ \<Rightarrow> for_each g ys)"
  by (induction xs) (auto split: sum.splits)

lemma for_each_skip:
  "g x = Inr () \<Longrightarrow> for_each g (xs @ x # ys) = for_each g (xs @ ys)"
  by (simp add: for_each_append split: sum.splits)

lemma validate_method_skip:
  assumes "check_field_type self (case pa of None \<Rightarrow> AbstractTreePath [] True | Some q \<Rightarrow> q) f = Inr ()"
    and "subvalidate_field V self (case pa of None \<Rightarrow> AbstractTreePath [] True | Some q \<Rightarrow> q) f = Inr ()"
  shows "validate_method V P (fs1 @ f # fs2) self pa = validate_method V P (fs1 @ fs2) self pa"
proof -
  let ?p = "case pa of None \<Rightarrow> AbstractTreePath [] True | Some q \<Rightarrow> q"
  have "for_each (check_field_type self ?p) (fs1 @ f # fs2) = for_each (check_field_type self ?p) (fs1 @ fs2)"
    using assms(1) by (rule for_each_skip)
  moreover have "for_each (subvalidate_field V self ?p) (fs1 @ f # fs2)
      = for_each (subvalidate_field V self ?p) (fs1 @ fs2)"
    using assms(2) by (rule for_each_skip)
  ultimately show ?thesis
    unfolding validate_method_def Let_def by (simp only:)
qed

lemma subvalidate_absent:
  "getattr_opt self (field_name f) = None \<Longrightarrow> subvalidate_field V self p f = Inr ()"
  by (simp add: subvalidate_field_def)

text \<open>
  For the examples: a user class, objects without custom methods, and no dataclass.
\<close>

definition no_methods :: "pyval \<Rightarrow> 'm option" where
  "no_methods obj = None"


definition Rec :: cls where "Rec = Cls ''app'' ''Rec'' []"

text \<open>
  C7, as amended. Let the field \<open>f\<close> be absent on the instance, and let \<open>p\<close> be the path
  that \<open>validate\<close> works with. If \<open>f\<close> is declared with \<open>validate_require_exist=False\<close>
  (or with \<open>validate_type=False\<close>), validation runs as if the record had no field \<open>f\<close>:
  the field raises nothing. If \<open>f\<close>
  is declared with \<open>validate_require_exist=True\<close> and is type checked, its check is
  \<open>enforce_type\<close> on \<open>NotSet\<close> at the attribute path of the field with
  \<open>notset_as_special=True\<close>; when the type of the field rejects \<open>NotSet\<close> and the type
  checks of the fields before \<open>f\<close> pass, validation raises that error, and when the type
  accepts \<open>NotSet\<close>, the field raises nothing.
\<close>

theorem validate_method_absent_field:
  assumes "getattr_opt self (field_name f) = None"
    and "p = (case pa of None \<Rightarrow> AbstractTreePath [] True | Some q \<Rightarrow> q)"
  shows "(\<not> validate_require_exist f \<or> \<not> validate_type f \<longrightarrow>
            validate_method V P (fs1 @ f # fs2) self pa = validate_method V P (fs1 @ fs2) self pa)
       \<and> (validate_require_exist f \<and> validate_type f \<longrightarrow>
            check_field_type self p f
              = enforce_type VNotSet (field_type f) (add_attribute p (field_name f)) None True)
       \<and> (validate_require_exist f \<and> validate_type f
            \<and> for_each (check_field_type self p) fs1 = Inr ()
            \<and> enforce_type VNotSet (field_type f) (add_attribute p (field_name f)) None True = Inl e \<longrightarrow>
            validate_method V P (fs1 @ f # fs2) self pa = Inl e)
       \<and> (validate_require_exist f
            \<and> enforce_type VNotSet (field_type f) (add_attribute p (field_name f)) None True = Inr () \<longrightarrow>
            validate_method V P (fs1 @ f # fs2) self pa = validate_method V P (fs1 @ fs2) self pa)"
proof (intro conjI impI)
  have sub: "subvalidate_field V self p f = Inr ()"
    using assms(1) by (rule subvalidate_absent)
  show "validate_method V P (fs1 @ f # fs2) self pa = validate_method V P (fs1 @ fs2) self pa"
    if "\<not> validate_require_exist f \<or> \<not> validate_type f"
  proof (rule validate_method_skip)
    show "check_field_type self (case pa of None \<Rightarrow> AbstractTreePath [] True | Some q \<Rightarrow> q) f = Inr ()"
      using that assms(1) by (simp add: check_field_type_def)
    show "subvalidate_field V self (case pa of None \<Rightarrow> AbstractTreePath [] True | Some q \<Rightarrow> q) f = Inr ()"
      using sub assms(2) by simp
  qed
  show chk: "check_field_type self p f
              = enforce_type VNotSet (field_type f) (add_attribute p (field_name f)) None True"
    if "validate_require_exist f \<and> validate_type f"
    using that assms(1) by (simp add: check_field_type_def)
  show "validate_method V P (fs1 @ f # fs2) self pa = Inl e"
    if h: "validate_require_exist f \<and> validate_type f
            \<and> for_each (check_field_type self p) fs1 = Inr ()
            \<and> enforce_type VNotSet (field_type f) (add_attribute p (field_name f)) None True = Inl e"
  proof -
    have "check_field_type self p f = Inl e" using chk h by simp
    then have "for_each (check_field_type self p) (fs1 @ f # fs2) = Inl e"
      using h by (simp add: for_each_append)
    then show ?thesis
      unfolding validate_method_def Let_def assms(2) [symmetric] by simp
  qed
  show "validate_method V P (fs1 @ f # fs2) self pa = validate_method V P (fs1 @ fs2) self pa"
    if h: "validate_require_exist f
            \<and> enforce_type VNotSet (field_type f) (add_attribute p (field_name f)) None True = Inr ()"
  proof (rule validate_method_skip)
    show "check_field_type self (case pa of None \<Rightarrow> AbstractTreePath [] True | Some q \<Rightarrow> q) f = Inr ()"
      using h assms by (simp add: check_field_type_def)
    show "subvalidate_field V self (case pa of None \<Rightarrow> AbstractTreePath [] True | Some q \<Rightarrow> q) f = Inr ()"
      using sub assms(2) by simp
  qed
qed

text \<open>
  A record with the field \<open>a: int\<close> set to 1 and the field \<open>x: int\<close> absent: validation
  returns when \<open>x\<close> is not required to exist, and raises at \<open>.x\<close>, naming \<open><not set>\<close>,
  when it is.
\<close>

theorem validate_method_absent_field_witness:
  "validate_method no_methods no_methods
       [Field ''a'' (TClass int_cls) True True False, Field ''x'' (TClass int_cls) True False True]
       (VObj Rec [(''a'', VInt 1)]) None = Inr ()
   \<and> validate_method no_methods no_methods
       [Field ''a'' (TClass int_cls) True True False, Field ''x'' (TClass int_cls) True True True]
       (VObj Rec [(''a'', VInt 1)]) None
       = Inl (GU_TypeValidationError (AbstractTreePath [ATPathAttribute ''x''] True)
                (MustBeOfType (ReprName ''int'') (ReprName ''<not set>'')) None)"
  using validate_method_absent_field
          [of "VObj Rec [(''a'', VInt 1)]" "Field ''x'' (TClass int_cls) True False True"
              "AbstractTreePath [] True" None no_methods no_methods
              "[Field ''a'' (TClass int_cls) True True False]" "[]"]
        validate_method_absent_field
          [of "VObj Rec [(''a'', VInt 1)]" "Field ''x'' (TClass int_cls) True True True"
              "AbstractTreePath [] True" None no_methods no_methods
              "[Field ''a'' (TClass int_cls) True True False]" "[]"]
  by (simp add: validate_method_def check_field_type_def subvalidate_field_def add_attribute_def
        no_methods_def Rec_def builtin_defs)

text \<open>
  C7 as stated fails: a field that is required to exist, absent, and annotated \<open>Any\<close>
  does not raise, since \<open>Any\<close> accepts \<open>NotSet\<close>.
\<close>

theorem validate_method_required_absent_counterexample:
  "validate_method no_methods no_methods [Field ''x'' TAny True True False] (VObj Rec []) None = Inr ()"
  by (simp add: validate_method_def check_field_type_def subvalidate_field_def no_methods_def)

section \<open>The paths of a visited tree\<close>















end
